theory Spec2Isabelle
  imports Complex_Main "HOL-Library.Multiset"
begin

section \<open>Signal Gate: \<open>checkAudioVolume\<close> of the recording hook\<close>

text \<open>
  The hook \<open>useRealTimeTranscription\<close> decides for every recorded blob whether it is sent
  to the transcription endpoint. The decision is taken by \<open>checkAudioVolume\<close>, which
  builds an \<open>AudioContext\<close>, reads the blob with a \<open>FileReader\<close>, decodes it and scans
  channel 0 of the decoded buffer.

  Everything the browser does to the blob is an input of the model: the constructor of the
  audio context may throw (outer \<open>catch\<close>), the reader may report an error
  (\<open>fileReader.onerror\<close>), \<open>decodeAudioData\<close> may reject (inner \<open>catch\<close>), or decoding
  yields an audio buffer, given here by its list of channels. \<open>getChannelData(0)\<close> on a
  buffer without channels throws inside the inner \<open>try\<close>.

  The promise that \<open>checkAudioVolume\<close> returns is resolved by the handlers only. The
  inner \<open>try\<close> awaits \<open>audioContext.close()\<close> before it resolves with its verdict, and
  the inner \<open>catch\<close> awaits \<open>audioContext.close()\<close> again before it resolves with
  \<open>true\<close>. Whether each of the two calls resolves is an input as well. A rejection in
  the \<open>try\<close> leads to the \<open>catch\<close>; a rejection in the \<open>catch\<close> is caught by
  nothing, and the promise is never settled: the result \<open>None\<close>.

  Samples are real numbers: every finite sample is one, and \<open>Math.abs\<close>, \<open>Math.max\<close>
  and the comparison of a sample with a threshold are exact on them (no single-precision
  sample lies between 0.01 or 0.005 and the double nearest to it). The running sum, the
  two quotients and the product are rounded to a double in the source; the rounding is
  the input \<open>round_double\<close>, of which nothing is assumed. A division by the length of an
  empty channel is \<open>NaN\<close> in the source and every comparison with \<open>NaN\<close> is false,
  which the model writes out.
\<close>

datatype audio_analysis =
    ContextUnsupported
  | ReadError
  | DecodeError
  | Decoded "real list list"

record browser =
  round_double :: "real \<Rightarrow> real"
  close_after_analysis :: bool
  close_in_handler :: bool

record volume_stats =
  sum :: real
  maxAmplitude :: real
  samplesAboveThreshold :: nat

definition threshold :: real where
  "threshold = 5 / 1000"

definition scan_sample :: "(real \<Rightarrow> real) \<Rightarrow> volume_stats \<Rightarrow> real \<Rightarrow> volume_stats" where
  "scan_sample rd st x =
     (let amplitude = \<bar>x\<bar>
      in \<lparr> sum = rd (sum st + amplitude),
           maxAmplitude = max (maxAmplitude st) amplitude,
           samplesAboveThreshold =
             (if amplitude > threshold then samplesAboveThreshold st + 1
              else samplesAboveThreshold st) \<rparr>)"

fun scan_channel :: "(real \<Rightarrow> real) \<Rightarrow> volume_stats \<Rightarrow> real list \<Rightarrow> volume_stats" where
  "scan_channel rd st [] = st"
| "scan_channel rd st (x # xs) = scan_channel rd (scan_sample rd st x) xs"

definition initial_stats :: volume_stats where
  "initial_stats = \<lparr> sum = 0, maxAmplitude = 0, samplesAboveThreshold = 0 \<rparr>"

definition averageAmplitude :: "(real \<Rightarrow> real) \<Rightarrow> volume_stats \<Rightarrow> nat \<Rightarrow> real" where
  "averageAmplitude rd st n = rd (sum st / real n)"

definition percentageAboveThreshold :: "(real \<Rightarrow> real) \<Rightarrow> volume_stats \<Rightarrow> nat \<Rightarrow> real" where
  "percentageAboveThreshold rd st n = rd (rd (real (samplesAboveThreshold st) / real n) * 100)"

definition hasSignificantAudio :: "(real \<Rightarrow> real) \<Rightarrow> real list \<Rightarrow> bool" where
  "hasSignificantAudio rd channelData =
     (let st = scan_channel rd initial_stats channelData;
          n = length channelData
      in maxAmplitude st > 1 / 100
         \<or> (n \<noteq> 0 \<and> averageAmplitude rd st n > rd (1 / 1000))
         \<or> (n \<noteq> 0 \<and> percentageAboveThreshold rd st n > 1))"

text \<open>The inner \<open>catch\<close>: close the context, then resolve with \<open>true\<close>.\<close>

definition analysis_handler :: "browser \<Rightarrow> bool option" where
  "analysis_handler b = (if close_in_handler b then Some True else None)"

fun checkAudioVolume :: "browser \<Rightarrow> audio_analysis \<Rightarrow> bool option" where
  "checkAudioVolume b ContextUnsupported = Some True"
| "checkAudioVolume b ReadError = Some True"
| "checkAudioVolume b DecodeError = analysis_handler b"
| "checkAudioVolume b (Decoded []) = analysis_handler b"
| "checkAudioVolume b (Decoded (channelData # _)) =
     (if close_after_analysis b then Some (hasSignificantAudio (round_double b) channelData)
      else analysis_handler b)"

text \<open>
  The head of \<open>transcribeAudio\<close>: an empty blob returns at once; the hook then awaits the
  gate and goes no further while its promise is unsettled; a blob that the gate rejects
  is skipped, every other blob is posted to \<open>/api/transcribe\<close>.
\<close>

datatype gate_decision = EmptyBlob | Unsettled | Skip | Send

definition gate :: "browser \<Rightarrow> nat \<Rightarrow> audio_analysis \<Rightarrow> gate_decision" where
  "gate b blob_size analysis =
     (if blob_size = 0 then EmptyBlob
      else case checkAudioVolume b analysis of
             None \<Rightarrow> Unsettled
           | Some hasAudio \<Rightarrow> if \<not> hasAudio then Skip else Send)"


section \<open>Strings as the routes use them\<close>

text \<open>
  Transcripts, keys and model responses are \<open>string\<close>s, one \<open>char\<close> per code unit; the
  text is taken to be ASCII or Latin-1, so that \<open>length\<close> is the source's \<open>.length\<close> and
  \<open>toLowerCase\<close> acts on the letters A to Z and on the Latin-1 capitals (codes 192 to
  222 without the multiplication sign 215), each of which has its small letter 32 codes
  further on. White space is the part of the source's \<open>\s\<close> and \<open>trim()\<close> set
  that fits a \<open>char\<close>: tab, line feed, vertical tab, form feed, carriage return, space and
  the no-break space.
\<close>

definition toLowerCase_char :: "char \<Rightarrow> char" where
  "toLowerCase_char c =
     (let n = (of_char c :: nat)
      in if (65 \<le> n \<and> n \<le> 90) \<or> (192 \<le> n \<and> n \<le> 222 \<and> n \<noteq> 215)
         then char_of (n + 32) else c)"

definition toLowerCase :: "string \<Rightarrow> string" where
  "toLowerCase s = map toLowerCase_char s"

definition isWhiteSpace :: "char \<Rightarrow> bool" where
  "isWhiteSpace c = ((of_char c :: nat) \<in> {9, 10, 11, 12, 13, 32, 160})"

definition trimEnd :: "string \<Rightarrow> string" where
  "trimEnd s = rev (dropWhile isWhiteSpace (rev s))"

definition trim :: "string \<Rightarrow> string" where
  "trim s = trimEnd (dropWhile isWhiteSpace s)"

fun startsWith :: "'a list \<Rightarrow> 'a list \<Rightarrow> bool" where
  "startsWith s [] = True"
| "startsWith [] (p # ps) = False"
| "startsWith (c # cs) (p # ps) = (c = p \<and> startsWith cs ps)"

text \<open>\<open>s.includes(p)\<close>: \<open>p\<close> occurs in \<open>s\<close> as a contiguous substring.\<close>

fun includes_sub :: "'a list \<Rightarrow> 'a list \<Rightarrow> bool" where
  "includes_sub [] p = startsWith [] p"
| "includes_sub (c # cs) p = (startsWith (c # cs) p \<or> includes_sub cs p)"

text \<open>
  \<open>(s.match(/p/g) || []).length\<close> for a literal, non-empty pattern: the matches are
  found from left to right and the search resumes behind each match.
\<close>

fun count_matches :: "'a list \<Rightarrow> 'a list \<Rightarrow> nat" where
  "count_matches [] p = 0"
| "count_matches (c # cs) p =
     (if startsWith (c # cs) p then Suc (count_matches (drop (length p - 1) cs) p)
      else count_matches cs p)"

text \<open>The decimal digits of a number, as a template literal renders it.\<close>

fun decimal :: "nat \<Rightarrow> string" where
  "decimal n =
     (if n < 10 then [''0123456789'' ! n]
      else decimal (n div 10) @ [''0123456789'' ! (n mod 10)])"

text \<open>A value that JavaScript treats as false where a string is expected: absent or empty.\<close>

definition truthy :: "string option \<Rightarrow> bool" where
  "truthy v = (case v of None \<Rightarrow> False | Some s \<Rightarrow> s \<noteq> [])"

section \<open>Hallucination Filter of the transcribe route\<close>

definition hallucinations :: "string list" where
  "hallucinations =
     [''thank you'', ''thanks for watching'', ''bye'', ''bye-bye'', ''transcribed by'',
      ''otter.ai'', ''thanks'', ''thank you very much'', ''goodbye'', ''see you later'',
      ''have a great day'', ''take care'', ''beadaholique.com'', ''beading supplies'',
      ''go to beadaholique'', ''for all of your'', ''supplies needs'']"

definition transcriptionLower :: "string \<Rightarrow> string" where
  "transcriptionLower t = trim (toLowerCase t)"

text \<open>
  The pattern \<open>/thank you/gi\<close> is applied to the lower-cased text, where matching without
  regard to case is matching the lower-case literal.
\<close>

definition thankYouCount :: "string \<Rightarrow> nat" where
  "thankYouCount t = count_matches (transcriptionLower t) ''thank you''"

definition isLikelyHallucination :: "string \<Rightarrow> bool" where
  "isLikelyHallucination t =
     (let tl = transcriptionLower t
      in (length t < 100
            \<and> list_ex (\<lambda>phrase. includes_sub tl (toLowerCase phrase)) hallucinations)
         \<or> thankYouCount t \<ge> 3
         \<or> includes_sub tl ''otter.ai''
         \<or> includes_sub tl ''transcribed by''
         \<or> (includes_sub tl ''.com'' \<and> includes_sub tl ''for all'')
         \<or> includes_sub tl ''beadaholique''
         \<or> (includes_sub tl ''go to'' \<and> includes_sub tl ''.com'')
         \<or> includes_sub tl ''supplies needs'')"

section \<open>The transcribe route: \<open>POST /api/transcribe\<close>\<close>

text \<open>
  The route takes the caller's identity, the \<open>audio\<close> and \<open>sessionId\<close> fields of the form
  and the state of the private bucket \<open>audio-recordings\<close>. What the outside world answers
  during the request is an input too: the clock read for the file name, the clock read for
  the reply, whether the upload to storage fails, and the answer of the speech-to-text
  service. The route returns its reply, the bucket afterwards and the calls it made, in
  the order it made them.

  The upload is made with \<open>upsert: false\<close>: it fails when the key is taken. A failed upload
  is logged and the request goes on with \<open>audioUrl = null\<close>. Of the \<open>debug\<close> object of the
  reply the model keeps \<open>skipped\<close>, \<open>originalText\<close>, \<open>savedAs\<close> and \<open>audioUrl\<close>; the fields
  that repeat sizes and counts are left out.
\<close>

type_synonym bytes = "char list"

type_synonym bucket = "string \<rightharpoonup> bytes"

datatype effect = StorageUpload string | SpeechToText | TextCompletion | SummaryInsert

record whisper_transcription =
  w_text :: string
  w_duration :: real
  w_words :: "string list option"

datatype whisper_outcome = WhisperFailed | WhisperOk whisper_transcription

record transcribe_env =
  clock :: nat
  reply_clock :: nat
  storage_down :: bool
  whisper :: whisper_outcome

record transcribe_body =
  b_text :: string
  b_confidence :: real
  b_timestamp :: nat
  b_duration :: real
  b_words :: "string list"
  b_skipped :: "string option"
  b_originalText :: "string option"
  b_savedAs :: string
  b_audioUrl :: "string option"

datatype transcribe_reply =
    T_Unauthorized
  | T_BadRequest
  | T_Failed
  | T_Ok transcribe_body

definition audioFileName :: "string \<Rightarrow> nat \<Rightarrow> string" where
  "audioFileName sessionId timestamp = sessionId @ ''/audio-'' @ decimal timestamp @ ''.webm''"

definition storage_upload :: "bool \<Rightarrow> bucket \<Rightarrow> string \<Rightarrow> bytes \<Rightarrow> bool \<times> bucket" where
  "storage_upload down b key data =
     (if down \<or> b key \<noteq> None then (False, b) else (True, b(key \<mapsto> data)))"

definition filter_result :: "string \<Rightarrow> string option \<Rightarrow> nat \<Rightarrow> whisper_transcription \<Rightarrow> transcribe_body" where
  "filter_result fileName audioUrl now t =
     (if isLikelyHallucination (w_text t)
      then \<lparr> b_text = [], b_confidence = 0, b_timestamp = now, b_duration = w_duration t,
             b_words = [], b_skipped = Some ''hallucination_detected'',
             b_originalText = Some (w_text t), b_savedAs = fileName, b_audioUrl = audioUrl \<rparr>
      else \<lparr> b_text = w_text t, b_confidence = 95 / 100, b_timestamp = now,
             b_duration = w_duration t,
             b_words = (case w_words t of None \<Rightarrow> [] | Some ws \<Rightarrow> ws),
             b_skipped = None, b_originalText = None, b_savedAs = fileName,
             b_audioUrl = audioUrl \<rparr>)"

definition POST_transcribe ::
  "string option \<Rightarrow> bytes option \<Rightarrow> string option \<Rightarrow> transcribe_env \<Rightarrow> bucket
     \<Rightarrow> transcribe_reply \<times> bucket \<times> effect list" where
  "POST_transcribe userId audioFile sessionId env store =
     (if \<not> truthy userId then (T_Unauthorized, store, [])
      else case (audioFile, sessionId) of
        (Some audioBuffer, Some sid) \<Rightarrow>
          (if sid = [] then (T_BadRequest, store, [])
           else
             let fileName = audioFileName sid (clock env);
                 (saved, store') = storage_upload (storage_down env) store fileName audioBuffer;
                 audioUrl = (if saved then Some fileName else None);
                 calls = [StorageUpload fileName, SpeechToText]
             in case whisper env of
                  WhisperFailed \<Rightarrow> (T_Failed, store', calls)
                | WhisperOk t \<Rightarrow>
                    (T_Ok (filter_result fileName audioUrl (reply_clock env) t), store', calls))
      | _ \<Rightarrow> (T_BadRequest, store, []))"

section \<open>The database and the transcriptions route\<close>

text \<open>
  The tables are lists of rows. A query names the table it reads; the request's \<open>faulty\<close>
  argument says for which tables the store answers with an error during this request.
  \<open>.single()\<close> answers with an error unless exactly one row matches. \<open>.order('timestamp',
  { ascending: true })\<close> sorts by the timestamp, here the instant in milliseconds; rows
  with equal timestamps stay in stored order. The row id and \<open>created_at\<close>, which the
  store fills in, are left out.
\<close>

record session_row =
  s_id :: string
  s_clerk_user_id :: string
  s_scenario_type :: string

record transcription_row =
  t_session_id :: string
  t_text :: string
  t_confidence :: real
  t_timestamp :: nat
  t_speaker :: string
  t_duration :: "real option"
  t_chunk_index :: "nat option"
  t_audio_url :: "string option"

record ai_summary =
  key_topics :: "string list"
  main_concerns :: "string list"
  progress_notes :: string
  next_steps :: "string list"
  risk_assessment :: string
  overall_summary :: string
  session_duration_minutes :: nat
  transcript_length :: nat

record summary_row =
  m_session_id :: string
  m_summary :: ai_summary
  m_transcription_count :: nat
  m_confidence :: real
  m_created_at :: nat
  m_updated_at :: nat

record database =
  sessions :: "session_row list"
  transcriptions :: "transcription_row list"
  session_summaries :: "summary_row list"

datatype table = Sessions | Transcriptions | SessionSummaries

definition single :: "'a list \<Rightarrow> 'a option" where
  "single rows = (case rows of [r] \<Rightarrow> Some r | _ \<Rightarrow> None)"

definition owned_session :: "database \<Rightarrow> (table \<Rightarrow> bool) \<Rightarrow> string \<Rightarrow> string \<Rightarrow> session_row option" where
  "owned_session db faulty sessionId userId =
     (if faulty Sessions then None
      else single (filter (\<lambda>s. s_id s = sessionId \<and> s_clerk_user_id s = userId) (sessions db)))"

definition session_transcriptions :: "database \<Rightarrow> string \<Rightarrow> transcription_row list" where
  "session_transcriptions db sessionId =
     sort_key t_timestamp (filter (\<lambda>t. t_session_id t = sessionId) (transcriptions db))"

record save_request =
  q_text :: string
  q_confidence :: "real option"
  q_timestamp :: "nat option"
  q_speaker :: "string option"
  q_duration :: "real option"
  q_chunkIndex :: "nat option"
  q_audioUrl :: "string option"

datatype transcriptions_reply =
    L_Unauthorized
  | L_NotFound
  | L_Failed
  | L_Saved transcription_row
  | L_List "transcription_row list"

definition POST_transcriptions ::
  "string option \<Rightarrow> string \<Rightarrow> save_request \<Rightarrow> nat \<Rightarrow> (table \<Rightarrow> bool) \<Rightarrow> database
     \<Rightarrow> transcriptions_reply \<times> database" where
  "POST_transcriptions userId sessionId req now faulty db =
     (case userId of
        None \<Rightarrow> (L_Unauthorized, db)
      | Some uid \<Rightarrow>
          if uid = [] then (L_Unauthorized, db)
          else (case owned_session db faulty sessionId uid of
            None \<Rightarrow> (L_NotFound, db)
          | Some session \<Rightarrow>
              if faulty Transcriptions then (L_Failed, db)
              else
                let row = \<lparr> t_session_id = sessionId,
                            t_text = q_text req,
                            t_confidence =
                              (case q_confidence req of None \<Rightarrow> 95 / 100
                               | Some c \<Rightarrow> if c = 0 then 95 / 100 else c),
                            t_timestamp = (case q_timestamp req of None \<Rightarrow> now | Some ts \<Rightarrow> ts),
                            t_speaker =
                              (case q_speaker req of None \<Rightarrow> ''user''
                               | Some sp \<Rightarrow> if sp = [] then ''user'' else sp),
                            t_duration = q_duration req,
                            t_chunk_index = q_chunkIndex req,
                            t_audio_url = q_audioUrl req \<rparr>
                in (L_Saved row, db\<lparr> transcriptions := transcriptions db @ [row] \<rparr>)))"

text \<open>
  \<open>GET /api/sessions/[id]/transcriptions\<close> reads the rows first and checks the owner only
  when there is a row to return.
\<close>

definition GET_transcriptions ::
  "string option \<Rightarrow> string \<Rightarrow> (table \<Rightarrow> bool) \<Rightarrow> database \<Rightarrow> transcriptions_reply" where
  "GET_transcriptions userId sessionId faulty db =
     (case userId of
        None \<Rightarrow> L_Unauthorized
      | Some uid \<Rightarrow>
          if uid = [] then L_Unauthorized
          else if faulty Transcriptions then L_Failed
          else
            let rows = session_transcriptions db sessionId
            in if length rows > 0
               then (case owned_session db faulty sessionId uid of
                       None \<Rightarrow> L_NotFound
                     | Some session \<Rightarrow> L_List rows)
               else L_List rows)"

section \<open>The recording hook after the gate: \<open>transcribeAudio\<close>\<close>

text \<open>
  When the reply of the transcribe route arrives, the hook saves a transcription only if
  the reply is a success whose text is non-empty after trimming. The chunk index it sends
  is \<open>Math.floor(Date.now() / 1000)\<close>, read at that moment.
\<close>

definition chunkIndex :: "nat \<Rightarrow> nat" where
  "chunkIndex now = now div 1000"

definition save_request_for :: "transcribe_reply \<Rightarrow> nat \<Rightarrow> save_request option" where
  "save_request_for reply now =
     (case reply of
        T_Ok result \<Rightarrow>
          if b_text result \<noteq> [] \<and> trim (b_text result) \<noteq> []
          then Some \<lparr> q_text = b_text result,
                      q_confidence =
                        Some (if b_confidence result = 0 then 9 / 10 else b_confidence result),
                      q_timestamp = Some (b_timestamp result),
                      q_speaker = Some ''user'',
                      q_duration = Some (b_duration result),
                      q_chunkIndex = Some (chunkIndex now),
                      q_audioUrl =
                        (if truthy (b_audioUrl result) then b_audioUrl result else None) \<rparr>
          else None
      | _ \<Rightarrow> None)"

text \<open>
  One chunk through the whole pipeline: gate, transcribe route, and the save request of
  the hook when it makes one. The state is the bucket and the database.
\<close>

record chunk_env =
  browser_of :: browser
  analysis :: audio_analysis
  server :: transcribe_env
  response_clock :: nat
  save_clock :: nat
  faulty_tables :: "table \<Rightarrow> bool"

definition transcribeAudio ::
  "string option \<Rightarrow> string \<Rightarrow> bytes \<Rightarrow> chunk_env \<Rightarrow> bucket \<times> database \<Rightarrow> bucket \<times> database" where
  "transcribeAudio userId sessionId audioBlob env st =
     (case gate (browser_of env) (length audioBlob) (analysis env) of
        Send \<Rightarrow>
          (let (reply, store', calls) =
                 POST_transcribe userId (Some audioBlob) (Some sessionId) (server env) (fst st)
           in case save_request_for reply (response_clock env) of
                None \<Rightarrow> (store', snd st)
              | Some req \<Rightarrow>
                  (store', snd (POST_transcriptions userId sessionId req (save_clock env)
                                  (faulty_tables env) (snd st))))
      | _ \<Rightarrow> st)"

section \<open>Session summaries: \<open>AISummaryService\<close> and the summary route\<close>

text \<open>
  \<open>JSON.parse\<close> followed by the reading of the summary fields is a parameter of the model,
  \<open>JSON_parse\<close>: it yields nothing where \<open>JSON.parse\<close> throws, and otherwise the value
  the text denotes: an object, given by the summary fields read from it, or a value that
  is no object (\<open>null\<close>, a number, a string, a boolean), on which the assignment of
  \<open>session_duration_minutes\<close> behind the \<open>try\<close> throws a TypeError. The chat completion is a parameter as well: the prompt is a fixed
  template filled with the scenario type of the session and the transcript, so the
  service's answer is given as a function of these two. It throws, or yields a message
  content that may be absent or empty.

  The pattern \<open>/```json\s*([\s\S]*?)\s*```/\<close> matches at the first occurrence of the opening
  fence. The white space behind it is consumed, and the lazy group ends at the first
  position from which only white space separates it from a closing fence: it captures the
  text up to the first closing fence, without the white space at its end. There is no
  match without a closing fence.
\<close>

fun find_after :: "'a list \<Rightarrow> 'a list \<Rightarrow> 'a list option" where
  "find_after [] p = (if p = [] then Some [] else None)"
| "find_after (c # cs) p =
     (if startsWith (c # cs) p then Some (drop (length p) (c # cs)) else find_after cs p)"

fun find_before :: "'a list \<Rightarrow> 'a list \<Rightarrow> 'a list option" where
  "find_before [] p = (if p = [] then Some [] else None)"
| "find_before (c # cs) p =
     (if startsWith (c # cs) p then Some [] else map_option ((#) c) (find_before cs p))"

definition fence :: string where
  "fence = [CHR 0x60, CHR 0x60, CHR 0x60]"

definition fenced_json :: "string \<Rightarrow> string option" where
  "fenced_json s =
     (case find_after s (fence @ ''json'') of
        None \<Rightarrow> None
      | Some rest \<Rightarrow>
          (case find_before (dropWhile isWhiteSpace rest) fence of
             None \<Rightarrow> None
           | Some body \<Rightarrow> Some (trimEnd body)))"

fun indexOf :: "'a list \<Rightarrow> 'a \<Rightarrow> nat option" where
  "indexOf [] c = None"
| "indexOf (x # xs) c = (if x = c then Some 0 else map_option Suc (indexOf xs c))"

definition lastIndexOf :: "'a list \<Rightarrow> 'a \<Rightarrow> nat option" where
  "lastIndexOf s c = map_option (\<lambda>i. length s - 1 - i) (indexOf (rev s) c)"

definition slice :: "'a list \<Rightarrow> nat \<Rightarrow> nat \<Rightarrow> 'a list" where
  "slice s b e = take (e - b) (drop b s)"

definition brace_content :: "string \<Rightarrow> string option" where
  "brace_content s =
     (case (indexOf s (CHR ''{''), lastIndexOf s (CHR ''}'')) of
        (Some jsonStart, Some jsonEnd) \<Rightarrow>
          if jsonEnd > jsonStart then Some (slice s jsonStart (jsonEnd + 1)) else None
      | _ \<Rightarrow> None)"

datatype parsed_json = NotAnObject | SummaryObject ai_summary

datatype summary_error =
    SessionNotFound
  | FetchSummaryFailed
  | FetchTranscriptionsFailed
  | NoTranscriptions
  | CompletionFailed
  | NoResponse
  | InvalidFormat
  | MetadataTypeError
  | SaveFailed

text \<open>
  The nested \<open>try\<close> of \<open>callOpenAIWithTranscript\<close>: the response as it is; failing that, the
  fenced block when the pattern matches with a non-empty capture; only when it does not,
  the text from the first opening brace to the last closing brace. Any failure inside the
  inner \<open>try\<close> is the error \<open>Invalid response format from AI\<close>.
\<close>

definition parse_ai_response :: "(string \<Rightarrow> 'j option) \<Rightarrow> string \<Rightarrow> summary_error + 'j" where
  "parse_ai_response JSON_parse aiResponse =
     (case JSON_parse aiResponse of
        Some parsed \<Rightarrow> Inr parsed
      | None \<Rightarrow>
          (if truthy (fenced_json aiResponse)
           then (case JSON_parse (the (fenced_json aiResponse)) of
                   Some parsed \<Rightarrow> Inr parsed
                 | None \<Rightarrow> Inl InvalidFormat)
           else (case brace_content aiResponse of
                   Some jsonContent \<Rightarrow>
                     (case JSON_parse jsonContent of
                        Some parsed \<Rightarrow> Inr parsed
                      | None \<Rightarrow> Inl InvalidFormat)
                 | None \<Rightarrow> Inl InvalidFormat)))"

datatype completion_outcome = CompletionThrows | CompletionContent "string option"

record summary_env =
  JSON_parse :: "string \<Rightarrow> parsed_json option"
  openai :: "string \<Rightarrow> string \<Rightarrow> completion_outcome"
  e_now :: nat
  e_faulty :: "table \<Rightarrow> bool"

definition callOpenAIWithTranscript ::
  "summary_env \<Rightarrow> session_row \<Rightarrow> string \<Rightarrow> summary_error + ai_summary" where
  "callOpenAIWithTranscript env session fullTranscript =
     (case openai env (s_scenario_type session) fullTranscript of
        CompletionThrows \<Rightarrow> Inl CompletionFailed
      | CompletionContent aiResponse \<Rightarrow>
          if \<not> truthy aiResponse then Inl NoResponse
          else (case parse_ai_response (JSON_parse env) (the aiResponse) of
                  Inl e \<Rightarrow> Inl e
                | Inr NotAnObject \<Rightarrow> Inl MetadataTypeError
                | Inr (SummaryObject parsedResponse) \<Rightarrow>
                    Inr (parsedResponse\<lparr> session_duration_minutes := 0,
                                          transcript_length := length fullTranscript \<rparr>)))"

text \<open>
  \<open>session_summaries.session_id\<close> is declared unique, so an insert for a session that has
  a row fails.
\<close>

definition saveSummary ::
  "summary_env \<Rightarrow> database \<Rightarrow> string \<Rightarrow> ai_summary \<Rightarrow> nat \<Rightarrow> summary_error + summary_row \<times> database" where
  "saveSummary env db sessionId summary transcriptionCount =
     (if e_faulty env SessionSummaries
         \<or> filter (\<lambda>m. m_session_id m = sessionId) (session_summaries db) \<noteq> []
      then Inl SaveFailed
      else
        let row = \<lparr> m_session_id = sessionId, m_summary = summary,
                    m_transcription_count = transcriptionCount, m_confidence = 9 / 10,
                    m_created_at = e_now env, m_updated_at = e_now env \<rparr>
        in Inr (row, db\<lparr> session_summaries := session_summaries db @ [row] \<rparr>))"

definition getSessionSummary ::
  "summary_env \<Rightarrow> database \<Rightarrow> string \<Rightarrow> string \<Rightarrow> summary_error + summary_row option" where
  "getSessionSummary env db sessionId userId =
     (case owned_session db (e_faulty env) sessionId userId of
        None \<Rightarrow> Inl SessionNotFound
      | Some session \<Rightarrow>
          if e_faulty env SessionSummaries then Inl FetchSummaryFailed
          else Inr (single (filter (\<lambda>m. m_session_id m = sessionId) (session_summaries db))))"

definition generateSessionSummaryFromTranscript ::
  "summary_env \<Rightarrow> database \<Rightarrow> string \<Rightarrow> string \<Rightarrow> string \<Rightarrow> nat
     \<Rightarrow> (summary_error + summary_row) \<times> database \<times> effect list" where
  "generateSessionSummaryFromTranscript env db sessionId userId fullTranscript transcriptionCount =
     (case owned_session db (e_faulty env) sessionId userId of
        None \<Rightarrow> (Inl SessionNotFound, db, [])
      | Some session \<Rightarrow>
          (case (if e_faulty env SessionSummaries then None
                 else single (filter (\<lambda>m. m_session_id m = sessionId) (session_summaries db))) of
             Some existingSummary \<Rightarrow> (Inr existingSummary, db, [])
           | None \<Rightarrow>
               (case callOpenAIWithTranscript env session fullTranscript of
                  Inl e \<Rightarrow> (Inl e, db, [TextCompletion])
                | Inr aiSummary \<Rightarrow>
                    (case saveSummary env db sessionId aiSummary transcriptionCount of
                       Inl e \<Rightarrow> (Inl e, db, [TextCompletion, SummaryInsert])
                     | Inr (savedSummary, db') \<Rightarrow>
                         (Inr savedSummary, db', [TextCompletion, SummaryInsert])))))"

fun join :: "'a list \<Rightarrow> 'a list list \<Rightarrow> 'a list" where
  "join sep [] = []"
| "join sep [x] = x"
| "join sep (x # y # ys) = x @ sep @ join sep (y # ys)"

definition fullTranscript_of :: "transcription_row list \<Rightarrow> string" where
  "fullTranscript_of rows = join '' '' (filter (\<lambda>t. t \<noteq> []) (map t_text rows))"

record summary_request =
  includeMetadata :: bool
  forceRegenerate :: bool

datatype summary_reply =
    S_Unauthorized
  | S_BadRequest
  | S_Failed summary_error
  | S_Existing summary_row "string option"
  | S_Generated summary_row

definition generate_for_request ::
  "summary_env \<Rightarrow> database \<Rightarrow> string \<Rightarrow> string \<Rightarrow> summary_reply \<times> database \<times> effect list" where
  "generate_for_request env db sessionId userId =
     (if e_faulty env Transcriptions then (S_Failed FetchTranscriptionsFailed, db, [])
      else
        let rows = session_transcriptions db sessionId;
            fullTranscript = fullTranscript_of rows
        in if fullTranscript = [] then (S_Failed NoTranscriptions, db, [])
           else (case generateSessionSummaryFromTranscript env db sessionId userId
                         fullTranscript (length rows) of
                   (Inl e, db', calls) \<Rightarrow> (S_Failed e, db', calls)
                 | (Inr result, db', calls) \<Rightarrow> (S_Generated result, db', calls)))"

definition POST_summary ::
  "string option \<Rightarrow> string \<Rightarrow> summary_request \<Rightarrow> summary_env \<Rightarrow> database
     \<Rightarrow> summary_reply \<times> database \<times> effect list" where
  "POST_summary userId sessionId body env db =
     (case userId of
        None \<Rightarrow> (S_Unauthorized, db, [])
      | Some uid \<Rightarrow>
          if uid = [] then (S_Unauthorized, db, [])
          else if sessionId = [] then (S_BadRequest, db, [])
          else if \<not> forceRegenerate body
          then (case getSessionSummary env db sessionId uid of
                  Inl e \<Rightarrow> (S_Failed e, db, [])
                | Inr (Some existingSummary) \<Rightarrow>
                    (S_Existing existingSummary
                       (if includeMetadata body then Some sessionId else None), db, [])
                | Inr None \<Rightarrow> generate_for_request env db sessionId uid)
          else generate_for_request env db sessionId uid)"

text \<open>
  The summary route stores a summary only for a session whose transcript is not empty,
  and a transcription leaves the database only with its session, which takes the summary
  along. So in the databases the routes produce every stored summary belongs to a session
  with a non-empty transcript.
\<close>

definition summaries_backed :: "database \<Rightarrow> bool" where
  "summaries_backed db =
     list_all (\<lambda>m. fullTranscript_of (session_transcriptions db (m_session_id m)) \<noteq> [])
       (session_summaries db)"

section \<open>Sample data\<close>

text \<open>Concrete sessions, replies and environments on which the properties below are run.\<close>

definition no_faults :: "table \<Rightarrow> bool" where
  "no_faults = (\<lambda>_. False)"

definition demo_session :: session_row where
  "demo_session = \<lparr> s_id = ''s1'', s_clerk_user_id = ''user_a'', s_scenario_type = ''in_person'' \<rparr>"

definition demo_db :: database where
  "demo_db = \<lparr> sessions = [demo_session], transcriptions = [], session_summaries = [] \<rparr>"

definition demo_server :: "bool \<Rightarrow> string \<Rightarrow> transcribe_env" where
  "demo_server down said =
     \<lparr> clock = 1700000000000, reply_clock = 1700000000500, storage_down = down,
       whisper = WhisperOk \<lparr> w_text = said, w_duration = 3, w_words = None \<rparr> \<rparr>"

text \<open>
  A browser in which closing the audio context resolves, and one in which it rejects.
  The identity stands for the rounding: on the samples used below every sum, quotient and
  product of the scan is a dyadic fraction that a double holds exactly.
\<close>

definition steady_browser :: browser where
  "steady_browser =
     \<lparr> round_double = (\<lambda>x. x), close_after_analysis = True, close_in_handler = True \<rparr>"



definition demo_chunk_env :: "string \<Rightarrow> chunk_env" where
  "demo_chunk_env said =
     \<lparr> browser_of = steady_browser, analysis = Decoded [[1 / 2]], server = demo_server False said,
       response_clock = 1700000000600, save_clock = 1700000000700,
       faulty_tables = no_faults \<rparr>"

definition demo_reply :: "string \<Rightarrow> transcribe_reply" where
  "demo_reply said =
     T_Ok \<lparr> b_text = said, b_confidence = 95 / 100, b_timestamp = 1700000000500,
            b_duration = 3, b_words = [], b_skipped = None, b_originalText = None,
            b_savedAs = ''s1/audio-1700000000000.webm'',
            b_audioUrl = Some ''s1/audio-1700000000000.webm'' \<rparr>"

definition demo_row :: "string \<Rightarrow> string \<Rightarrow> nat \<Rightarrow> nat \<Rightarrow> transcription_row" where
  "demo_row sessionId said ts idx =
     \<lparr> t_session_id = sessionId, t_text = said, t_confidence = 95 / 100, t_timestamp = ts,
       t_speaker = ''user'', t_duration = Some 3, t_chunk_index = Some idx,
       t_audio_url = None \<rparr>"

text \<open>Two rows of one session whose timestamps and chunk indices disagree.\<close>

definition skewed_db :: database where
  "skewed_db =
     \<lparr> sessions = [demo_session],
       transcriptions = [demo_row ''s1'' ''first'' 1000 8, demo_row ''s1'' ''second'' 2000 7],
       session_summaries = [] \<rparr>"

text \<open>A text-generation service that answers with the transcript it was given.\<close>

definition blank_summary :: ai_summary where
  "blank_summary =
     \<lparr> key_topics = [], main_concerns = [], progress_notes = [], next_steps = [],
       risk_assessment = [], overall_summary = [], session_duration_minutes = 0,
       transcript_length = 0 \<rparr>"

definition echo_env :: summary_env where
  "echo_env =
     \<lparr> JSON_parse = (\<lambda>s. Some (SummaryObject (blank_summary\<lparr> overall_summary := s \<rparr>))),
       openai = (\<lambda>scenario transcript. CompletionContent (Some transcript)),
       e_now = 9000, e_faulty = no_faults \<rparr>"

text \<open>A session of another user with one transcription, beside the session of \<open>user_a\<close>.\<close>

definition shared_db :: database where
  "shared_db =
     \<lparr> sessions = [demo_session,
                    \<lparr> s_id = ''s2'', s_clerk_user_id = ''user_b'', s_scenario_type = ''in_person'' \<rparr>],
       transcriptions = [demo_row ''s2'' ''private'' 1000 1],
       session_summaries = [] \<rparr>"

text \<open>
  A parser that accepts the empty object only, a response with a fenced block that is not
  JSON followed by an empty object, and an environment whose service answers in prose
  that its parser rejects.
\<close>

definition braces_only :: "string \<Rightarrow> string option" where
  "braces_only s = (if s = ''{}'' then Some s else None)"

definition fenced_reply :: string where
  "fenced_reply = fence @ ''json oops '' @ fence @ '' {}''"

definition deaf_env :: summary_env where
  "deaf_env =
     \<lparr> JSON_parse = (\<lambda>s. None),
       openai = (\<lambda>scenario transcript. CompletionContent (Some ''I cannot summarise this.'')),
       e_now = 9000, e_faulty = no_faults \<rparr>"





section \<open>Properties of the Signal Gate\<close>

lemma scan_channel_max_mono:
  "maxAmplitude st \<le> maxAmplitude (scan_channel rd st xs)"
proof (induction xs arbitrary: st)
  case Nil
  show ?case by simp
next
  case (Cons x xs)
  have "maxAmplitude st \<le> maxAmplitude (scan_sample rd st x)"
    by (simp add: scan_sample_def Let_def)
  also have "\<dots> \<le> maxAmplitude (scan_channel rd (scan_sample rd st x) xs)"
    by (rule Cons.IH)
  finally show ?case by simp
qed

lemma scan_channel_max_ge:
  "x \<in> set xs \<Longrightarrow> \<bar>x\<bar> \<le> maxAmplitude (scan_channel rd st xs)"
proof (induction xs arbitrary: st)
  case Nil
  then show ?case by simp
next
  case (Cons y ys)
  show ?case
  proof (cases "x = y")
    case True
    have "\<bar>x\<bar> \<le> maxAmplitude (scan_sample rd st y)"
      using True by (simp add: scan_sample_def Let_def)
    also have "\<dots> \<le> maxAmplitude (scan_channel rd (scan_sample rd st y) ys)"
      by (rule scan_channel_max_mono)
    finally show ?thesis by simp
  next
    case False
    with Cons.prems have "x \<in> set ys" by simp
    then show ?thesis using Cons.IH by simp
  qed
qed

text \<open>
  The peak disjunct alone decides: a sample above 0.01 in the scanned channel makes the
  verdict \<open>true\<close> whatever the rounding does to the mean and to the percentage.
\<close>

lemma peak_is_significant:
  assumes "x \<in> set channelData" and "\<bar>x\<bar> > 1 / 100"
  shows "hasSignificantAudio rd channelData"
proof -
  have "\<bar>x\<bar> \<le> maxAmplitude (scan_channel rd initial_stats channelData)"
    using assms(1) by (rule scan_channel_max_ge)
  with assms(2) have "maxAmplitude (scan_channel rd initial_stats channelData) > 1 / 100"
    by linarith
  then show ?thesis by (simp add: hasSignificantAudio_def Let_def)
qed









section \<open>Substrings\<close>

lemma startsWith_iff: "startsWith s p \<longleftrightarrow> (\<exists>b. s = p @ b)"
  by (induction s p rule: startsWith.induct) auto

lemma includes_sub_iff: "includes_sub s p \<longleftrightarrow> (\<exists>a b. s = a @ p @ b)"
proof (induction s)
  case Nil
  show ?case by (cases p) auto
next
  case (Cons c cs)
  show ?case
  proof
    assume "includes_sub (c # cs) p"
    then consider "startsWith (c # cs) p" | "includes_sub cs p" by auto
    then show "\<exists>a b. c # cs = a @ p @ b"
    proof cases
      case 1
      then obtain b where "c # cs = p @ b" by (auto simp: startsWith_iff)
      then have "c # cs = [] @ p @ b" by simp
      then show ?thesis by blast
    next
      case 2
      then obtain a b where "cs = a @ p @ b" using Cons.IH by blast
      then have "c # cs = (c # a) @ p @ b" by simp
      then show ?thesis by blast
    qed
  next
    assume "\<exists>a b. c # cs = a @ p @ b"
    then obtain a b where ab: "c # cs = a @ p @ b" by blast
    show "includes_sub (c # cs) p"
    proof (cases a)
      case Nil
      with ab have "startsWith (c # cs) p" by (auto simp: startsWith_iff)
      then show ?thesis by simp
    next
      case (Cons a1 as)
      with ab have "cs = as @ p @ b" by simp
      then have "includes_sub cs p" using Cons.IH by blast
      then show ?thesis by simp
    qed
  qed
qed

lemma includes_sub_mono:
  assumes "includes_sub inner p" and "outer = a @ inner @ b"
  shows "includes_sub outer p"
proof -
  from assms(1) obtain x y where "inner = x @ p @ y" by (auto simp: includes_sub_iff)
  with assms(2) have "outer = (a @ x) @ p @ (y @ b)" by simp
  then show ?thesis unfolding includes_sub_iff by blast
qed

lemma trimEnd_decomp: "\<exists>b. s = trimEnd s @ b"
proof -
  have "rev (takeWhile isWhiteSpace (rev s) @ dropWhile isWhiteSpace (rev s)) = s" by simp
  then have "rev (dropWhile isWhiteSpace (rev s)) @ rev (takeWhile isWhiteSpace (rev s)) = s"
    by (simp only: rev_append)
  then have "s = trimEnd s @ rev (takeWhile isWhiteSpace (rev s))"
    by (simp only: trimEnd_def)
  then show ?thesis by blast
qed

lemma trim_decomp: "\<exists>a b. s = a @ trim s @ b"
proof -
  obtain b where b: "dropWhile isWhiteSpace s = trim s @ b"
    using trimEnd_decomp [of "dropWhile isWhiteSpace s"] by (auto simp: trim_def)
  have "s = takeWhile isWhiteSpace s @ dropWhile isWhiteSpace s" by simp
  with b have "s = takeWhile isWhiteSpace s @ trim s @ b" by simp
  then show ?thesis by blast
qed

lemma includes_sub_trim: "includes_sub (trim s) p \<Longrightarrow> includes_sub s p"
  using trim_decomp [of s] includes_sub_mono by blast

lemma count_matches_pos_includes: "0 < count_matches s p \<Longrightarrow> includes_sub s p"
proof (induction s p rule: count_matches.induct)
  case (1 p)
  then show ?case by simp
next
  case (2 c cs p)
  show ?case
  proof (cases "startsWith (c # cs) p")
    case True
    then show ?thesis by simp
  next
    case False
    with "2.prems" have "0 < count_matches cs p" by simp
    with False "2.IH"(2) have "includes_sub cs p" by simp
    then show ?thesis by simp
  qed
qed

lemma lower_phrases: "map toLowerCase hallucinations = hallucinations"
  by code_simp

lemma no_phrase_member:
  assumes "\<not> list_ex (\<lambda>phrase. includes_sub x (toLowerCase phrase)) hallucinations"
    and "phrase \<in> set hallucinations"
  shows "\<not> includes_sub x phrase"
proof
  assume inc: "includes_sub x phrase"
  from assms(2) have "phrase \<in> set (map toLowerCase hallucinations)"
    by (simp only: lower_phrases)
  then obtain q where q: "q \<in> set hallucinations" "phrase = toLowerCase q" by auto
  with inc have "list_ex (\<lambda>phrase. includes_sub x (toLowerCase phrase)) hallucinations"
    by (auto simp: list_ex_iff)
  with assms(1) show False by simp
qed

lemma clean_text_not_flagged:
  assumes none: "\<not> list_ex (\<lambda>phrase. includes_sub (toLowerCase t) (toLowerCase phrase)) hallucinations"
    and brand: "\<not> includes_sub (toLowerCase t) ''beadaholique''"
    and ad: "\<not> (includes_sub (toLowerCase t) ''.com''
                \<and> (includes_sub (toLowerCase t) ''for all'' \<or> includes_sub (toLowerCase t) ''go to''))"
  shows "\<not> isLikelyHallucination t"
proof -
  let ?tl = "transcriptionLower t"
  have sub: "\<And>p. includes_sub ?tl p \<Longrightarrow> includes_sub (toLowerCase t) p"
    unfolding transcriptionLower_def by (rule includes_sub_trim)
  have listed: "\<And>p. p \<in> set hallucinations \<Longrightarrow> \<not> includes_sub ?tl p"
    using no_phrase_member [OF none] sub by blast
  have a: "\<not> list_ex (\<lambda>phrase. includes_sub ?tl (toLowerCase phrase)) hallucinations"
  proof
    assume "list_ex (\<lambda>phrase. includes_sub ?tl (toLowerCase phrase)) hallucinations"
    then obtain q where q: "q \<in> set hallucinations" "includes_sub ?tl (toLowerCase q)"
      by (auto simp: list_ex_iff)
    from q(1) have "toLowerCase q \<in> set (map toLowerCase hallucinations)" by simp
    then have "toLowerCase q \<in> set hallucinations" by (simp only: lower_phrases)
    with listed q(2) show False by blast
  qed
  have ty: "\<not> includes_sub ?tl ''thank you''"
    by (rule listed) (simp add: hallucinations_def)
  have b: "\<not> thankYouCount t \<ge> 3"
  proof
    assume "thankYouCount t \<ge> 3"
    then have "0 < count_matches ?tl ''thank you''" by (simp add: thankYouCount_def)
    then have "includes_sub ?tl ''thank you''" by (rule count_matches_pos_includes)
    with ty show False by simp
  qed
  have c: "\<not> includes_sub ?tl ''otter.ai''"
    by (rule listed) (simp add: hallucinations_def)
  have d: "\<not> includes_sub ?tl ''transcribed by''"
    by (rule listed) (simp add: hallucinations_def)
  have e: "\<not> includes_sub ?tl ''supplies needs''"
    by (rule listed) (simp add: hallucinations_def)
  have f: "\<not> includes_sub ?tl ''beadaholique''" using brand sub by blast
  have g: "\<not> (includes_sub ?tl ''.com'' \<and> includes_sub ?tl ''for all'')" using ad sub by blast
  have h: "\<not> (includes_sub ?tl ''go to'' \<and> includes_sub ?tl ''.com'')" using ad sub by blast
  show ?thesis
    unfolding isLikelyHallucination_def Let_def using a b c d e f g h by blast
qed

section \<open>Properties of the Hallucination Filter and of the transcribe route\<close>

lemma flagged_sample: "isLikelyHallucination ''Thank you.''"
  by code_simp

lemma clean_sample: "\<not> isLikelyHallucination ''We met on Monday.''"
  by code_simp

lemma clean_sample_trim: "trim ''We met on Monday.'' \<noteq> []"
  by code_simp

lemma loud_sample: "hasSignificantAudio rd [1 / 2]"
  by (rule peak_is_significant [of "1 / 2"]) simp_all

lemma demo_key: "audioFileName ''s1'' 1700000000000 = ''s1/audio-1700000000000.webm''"
  by (simp add: audioFileName_def)

lemma POST_transcribe_ok:
  assumes "truthy userId" and "sessionId \<noteq> []" and "whisper env = WhisperOk t"
  shows "POST_transcribe userId (Some audioBlob) (Some sessionId) env store =
           (T_Ok (filter_result (audioFileName sessionId (clock env))
                    (if \<not> storage_down env \<and> store (audioFileName sessionId (clock env)) = None
                     then Some (audioFileName sessionId (clock env)) else None)
                    (reply_clock env) t),
            (if \<not> storage_down env \<and> store (audioFileName sessionId (clock env)) = None
             then store(audioFileName sessionId (clock env) \<mapsto> audioBlob) else store),
            [StorageUpload (audioFileName sessionId (clock env)), SpeechToText])"
  using assms by (simp add: POST_transcribe_def storage_upload_def Let_def)

lemma POST_transcribe_failed:
  assumes "truthy userId" and "sessionId \<noteq> []" and "whisper env = WhisperFailed"
  shows "POST_transcribe userId (Some audioBlob) (Some sessionId) env store =
           (T_Failed,
            (if \<not> storage_down env \<and> store (audioFileName sessionId (clock env)) = None
             then store(audioFileName sessionId (clock env) \<mapsto> audioBlob) else store),
            [StorageUpload (audioFileName sessionId (clock env)), SpeechToText])"
  using assms by (simp add: POST_transcribe_def storage_upload_def Let_def)

lemma flagged_result:
  "isLikelyHallucination (w_text t) \<Longrightarrow>
     b_text (filter_result k u n t) = [] \<and> b_confidence (filter_result k u n t) = 0
     \<and> b_audioUrl (filter_result k u n t) = u"
  by (simp add: filter_result_def)

lemma no_save_for_empty_text:
  "b_text body = [] \<Longrightarrow> save_request_for (T_Ok body) t0 = None"
  by (simp add: save_request_for_def)

text \<open>
  C1, as the code has it. When the speech-to-text answer of a chunk is flagged, the
  transcribe route replies with the empty string as text, confidence zero and the path
  under which it stored the audio (no path when the upload failed); the audio it stored
  stays in the bucket. The hook makes no save request for such a reply, so the pipeline
  leaves the database as it was: no transcription row is written for the chunk.
\<close>

theorem flagged_chunk_keeps_audio_without_record:
  assumes "truthy userId" and "sessionId \<noteq> []"
    and "whisper (server env) = WhisperOk t"
    and "isLikelyHallucination (w_text t)"
    and "key = audioFileName sessionId (clock (server env))"
    and "url = (if \<not> storage_down (server env) \<and> store key = None then Some key else None)"
    and "r = POST_transcribe userId (Some audioBlob) (Some sessionId) (server env) store"
  shows "fst r = T_Ok (filter_result key url (reply_clock (server env)) t)
       \<and> b_text (filter_result key url (reply_clock (server env)) t) = []
       \<and> b_confidence (filter_result key url (reply_clock (server env)) t) = 0
       \<and> b_audioUrl (filter_result key url (reply_clock (server env)) t) = url
       \<and> fst (snd r) = (if url = None then store else store(key \<mapsto> audioBlob))
       \<and> save_request_for (fst r) (response_clock env) = None
       \<and> snd (transcribeAudio userId sessionId audioBlob env (store, db)) = db"
proof -
  let ?body = "filter_result key url (reply_clock (server env)) t"
  have r: "r = (T_Ok ?body, (if url = None then store else store(key \<mapsto> audioBlob)),
                [StorageUpload key, SpeechToText])"
    unfolding assms(7) assms(6) assms(5)
    using POST_transcribe_ok [OF assms(1) assms(2) assms(3), of audioBlob store] by simp
  have flagged: "b_text ?body = []" "b_confidence ?body = 0" "b_audioUrl ?body = url"
    using flagged_result [OF assms(4)] by simp_all
  have nosave: "save_request_for (fst r) (response_clock env) = None"
    using r flagged(1) by (simp add: no_save_for_empty_text)
  have "snd (transcribeAudio userId sessionId audioBlob env (store, db)) = db"
  proof (cases "gate (browser_of env) (length audioBlob) (analysis env)")
    case Send
    then show ?thesis
      using nosave r unfolding assms(7)
      by (simp add: transcribeAudio_def)
  qed (simp_all add: transcribeAudio_def)
  with r flagged nosave show ?thesis by simp
qed

theorem flagged_chunk_keeps_audio_without_record_witness:
  "truthy (Some ''user_a'') \<and> ''s1'' \<noteq> []
   \<and> whisper (server (demo_chunk_env ''Thank you.''))
        = WhisperOk \<lparr> w_text = ''Thank you.'', w_duration = 3, w_words = None \<rparr>
   \<and> isLikelyHallucination (w_text \<lparr> w_text = ''Thank you.'', w_duration = 3, w_words = None \<rparr>)
   \<and> b_text (filter_result ''s1/audio-1700000000000.webm'' (Some ''s1/audio-1700000000000.webm'')
         1700000000500 \<lparr> w_text = ''Thank you.'', w_duration = 3, w_words = None \<rparr>) = []
   \<and> fst (snd (POST_transcribe (Some ''user_a'') (Some ''RIFF'') (Some ''s1'')
         (server (demo_chunk_env ''Thank you.'')) Map.empty))
        = [''s1/audio-1700000000000.webm'' \<mapsto> ''RIFF'']
   \<and> snd (transcribeAudio (Some ''user_a'') ''s1'' ''RIFF'' (demo_chunk_env ''Thank you.'')
         (Map.empty, demo_db)) = demo_db"
proof -
  have h1: "truthy (Some ''user_a'')" by (simp add: truthy_def)
  have h2: "''s1'' \<noteq> []" by simp
  have h3: "whisper (server (demo_chunk_env ''Thank you.''))
              = WhisperOk \<lparr> w_text = ''Thank you.'', w_duration = 3, w_words = None \<rparr>"
    by (simp add: demo_chunk_env_def demo_server_def)
  have h4: "isLikelyHallucination (w_text \<lparr> w_text = ''Thank you.'', w_duration = 3, w_words = None \<rparr>)"
    by (simp add: flagged_sample)
  have h5: "''s1/audio-1700000000000.webm''
              = audioFileName ''s1'' (clock (server (demo_chunk_env ''Thank you.'')))"
    by (simp add: demo_chunk_env_def demo_server_def demo_key)
  have h6: "Some ''s1/audio-1700000000000.webm''
              = (if \<not> storage_down (server (demo_chunk_env ''Thank you.''))
                    \<and> Map.empty ''s1/audio-1700000000000.webm'' = None
                 then Some ''s1/audio-1700000000000.webm'' else None)"
    by (simp add: demo_chunk_env_def demo_server_def)
  have h7: "POST_transcribe (Some ''user_a'') (Some ''RIFF'') (Some ''s1'')
              (server (demo_chunk_env ''Thank you.'')) Map.empty
            = POST_transcribe (Some ''user_a'') (Some ''RIFF'') (Some ''s1'')
              (server (demo_chunk_env ''Thank you.'')) Map.empty" by (rule refl)
  from flagged_chunk_keeps_audio_without_record [OF h1 h2 h3 h4 h5 h6 h7, of demo_db]
  show ?thesis using h1 h3 h4 by (simp add: demo_chunk_env_def demo_server_def)
qed

text \<open>
  C1 as the specification states it fails: a flagged chunk of a loud recording goes
  through the pipeline, its audio is stored, and the transcriptions table stays empty.
\<close>

theorem flagged_chunk_leaves_no_record:
  "isLikelyHallucination ''Thank you.''
   \<and> transcriptions (snd (transcribeAudio (Some ''user_a'') ''s1'' ''RIFF''
        (demo_chunk_env ''Thank you.'') (Map.empty, demo_db))) = []
   \<and> fst (transcribeAudio (Some ''user_a'') ''s1'' ''RIFF''
        (demo_chunk_env ''Thank you.'') (Map.empty, demo_db)) ''s1/audio-1700000000000.webm''
      = Some ''RIFF''"
  by (simp add: Let_def transcribeAudio_def gate_def loud_sample demo_chunk_env_def
      steady_browser_def demo_server_def POST_transcribe_def truthy_def demo_key storage_upload_def
      filter_result_def flagged_sample save_request_for_def demo_db_def)

text \<open>
  C7, as the code has it. A transcript that contains none of the listed phrases, does not
  contain \<open>beadaholique\<close>, and does not contain \<open>.com\<close> together with \<open>for all\<close> or
  \<open>go to\<close> (all without regard to case) is not flagged, and the route returns it as the
  speech-to-text service produced it, with confidence 0.95. Such a text has no occurrence
  of \<open>thank you\<close> at all, since that is a listed phrase.
\<close>

theorem clean_text_returned_unchanged:
  assumes "\<not> list_ex (\<lambda>phrase. includes_sub (toLowerCase (w_text t)) (toLowerCase phrase))
               hallucinations"
    and "\<not> includes_sub (toLowerCase (w_text t)) ''beadaholique''"
    and "\<not> (includes_sub (toLowerCase (w_text t)) ''.com''
            \<and> (includes_sub (toLowerCase (w_text t)) ''for all''
                 \<or> includes_sub (toLowerCase (w_text t)) ''go to''))"
  shows "\<not> isLikelyHallucination (w_text t)
       \<and> thankYouCount (w_text t) = 0
       \<and> b_text (filter_result fileName audioUrl now t) = w_text t
       \<and> b_confidence (filter_result fileName audioUrl now t) = 95 / 100"
proof -
  have clean: "\<not> isLikelyHallucination (w_text t)"
    using assms by (rule clean_text_not_flagged)
  have "\<not> includes_sub (toLowerCase (w_text t)) ''thank you''"
    by (rule no_phrase_member [OF assms(1)]) (simp add: hallucinations_def)
  then have "\<not> includes_sub (transcriptionLower (w_text t)) ''thank you''"
    unfolding transcriptionLower_def using includes_sub_trim by blast
  then have "\<not> 0 < count_matches (transcriptionLower (w_text t)) ''thank you''"
    using count_matches_pos_includes by blast
  then have "thankYouCount (w_text t) = 0" by (simp add: thankYouCount_def)
  with clean show ?thesis by (simp add: filter_result_def)
qed

theorem clean_text_returned_unchanged_witness:
  "\<not> list_ex (\<lambda>phrase. includes_sub (toLowerCase ''We met on Monday.'') (toLowerCase phrase))
        hallucinations
   \<and> \<not> includes_sub (toLowerCase ''We met on Monday.'') ''beadaholique''
   \<and> \<not> (includes_sub (toLowerCase ''We met on Monday.'') ''.com''
         \<and> (includes_sub (toLowerCase ''We met on Monday.'') ''for all''
              \<or> includes_sub (toLowerCase ''We met on Monday.'') ''go to''))
   \<and> b_text (filter_result ''s1/audio-1700000000000.webm'' None 1700000000500
         \<lparr> w_text = ''We met on Monday.'', w_duration = 3, w_words = None \<rparr>)
      = ''We met on Monday.''"
proof -
  let ?t = "\<lparr> w_text = ''We met on Monday.'', w_duration = 3, w_words = None \<rparr>"
  have h1: "\<not> list_ex (\<lambda>phrase. includes_sub (toLowerCase (w_text ?t)) (toLowerCase phrase))
                hallucinations"
    by code_simp
  have h2: "\<not> includes_sub (toLowerCase (w_text ?t)) ''beadaholique''"
    by code_simp
  have h3: "\<not> (includes_sub (toLowerCase (w_text ?t)) ''.com''
             \<and> (includes_sub (toLowerCase (w_text ?t)) ''for all''
                  \<or> includes_sub (toLowerCase (w_text ?t)) ''go to''))"
    by code_simp
  from clean_text_returned_unchanged [OF h1 h2 h3,
      of "''s1/audio-1700000000000.webm''" None 1700000000500]
  show ?thesis using h1 h2 h3 by simp
qed

text \<open>
  C7 as the specification states it fails: the text below contains none of the listed
  phrases and no \<open>thank you\<close>, and the route answers with the empty string.
\<close>

theorem unlisted_text_is_flagged:
  "\<not> list_ex (\<lambda>phrase. includes_sub (toLowerCase ''I love Beadaholique'') (toLowerCase phrase))
        hallucinations
   \<and> thankYouCount ''I love Beadaholique'' < 3
   \<and> b_text (filter_result ''s1/audio-1700000000000.webm'' None 1700000000500
         \<lparr> w_text = ''I love Beadaholique'', w_duration = 3, w_words = None \<rparr>) = []
   \<and> b_text (filter_result ''s1/audio-1700000000000.webm'' None 1700000000500
         \<lparr> w_text = ''I love Beadaholique'', w_duration = 3, w_words = None \<rparr>)
      \<noteq> ''I love Beadaholique''"
proof -
  have a: "\<not> list_ex (\<lambda>phrase. includes_sub (toLowerCase ''I love Beadaholique'')
                 (toLowerCase phrase)) hallucinations"
    by code_simp
  have b: "thankYouCount ''I love Beadaholique'' < 3" by code_simp
  have c: "isLikelyHallucination ''I love Beadaholique''" by code_simp
  show ?thesis using a b c by (simp add: filter_result_def)
qed

text \<open>
  C8, as the code has it. The route attempts the upload of the raw bytes before it calls
  the speech-to-text service, under the key \<open>sessionId/audio-<clock in ms>.webm\<close>. The
  bucket after the request does not depend on what the service answers: when the upload
  succeeds (storage answers and the key is free) the bytes are stored under the key,
  whether the transcript is flagged, kept, or the service fails; and a reply, flagged or
  not, carries the path. When the upload fails the bucket is unchanged, the request goes
  on and the reply carries no path.
\<close>

theorem audio_stored_before_transcription:
  assumes "truthy userId" and "sessionId \<noteq> []"
    and "key = sessionId @ ''/audio-'' @ decimal (clock env) @ ''.webm''"
    and "stored = (\<not> storage_down env \<and> store key = None)"
    and "r = POST_transcribe userId (Some audioBlob) (Some sessionId) env store"
  shows "snd (snd r) = [StorageUpload key, SpeechToText]
       \<and> fst (snd r) = (if stored then store(key \<mapsto> audioBlob) else store)
       \<and> (stored \<longrightarrow> fst (snd r) key = Some audioBlob)
       \<and> (case whisper env of
             WhisperFailed \<Rightarrow> fst r = T_Failed
           | WhisperOk t \<Rightarrow>
               fst r = T_Ok (filter_result key (if stored then Some key else None) (reply_clock env) t)
               \<and> b_audioUrl (filter_result key (if stored then Some key else None) (reply_clock env) t)
                   = (if stored then Some key else None))"
proof -
  have key: "key = audioFileName sessionId (clock env)"
    using assms(3) by (simp add: audioFileName_def)
  show ?thesis
  proof (cases "whisper env")
    case WhisperFailed
    show ?thesis
      unfolding assms(5) assms(4) key
      using POST_transcribe_failed [OF assms(1) assms(2) WhisperFailed, of audioBlob store]
        WhisperFailed
      by simp
  next
    case (WhisperOk t)
    have url: "b_audioUrl (filter_result k u n t) = u" for k u n
      by (simp add: filter_result_def)
    show ?thesis
      unfolding assms(5) assms(4) key
      using POST_transcribe_ok [OF assms(1) assms(2) WhisperOk, of audioBlob store] WhisperOk url
      by simp
  qed
qed

theorem audio_stored_before_transcription_witness:
  "truthy (Some ''user_a'') \<and> ''s1'' \<noteq> []
   \<and> snd (snd (POST_transcribe (Some ''user_a'') (Some ''RIFF'') (Some ''s1'')
         (demo_server False ''Thank you.'') Map.empty))
      = [StorageUpload ''s1/audio-1700000000000.webm'', SpeechToText]
   \<and> fst (snd (POST_transcribe (Some ''user_a'') (Some ''RIFF'') (Some ''s1'')
         (demo_server False ''Thank you.'') Map.empty)) ''s1/audio-1700000000000.webm''
      = Some ''RIFF''"
proof -
  have h1: "truthy (Some ''user_a'')" by (simp add: truthy_def)
  have h2: "''s1'' \<noteq> []" by simp
  have h3: "''s1/audio-1700000000000.webm''
              = ''s1'' @ ''/audio-'' @ decimal (clock (demo_server False ''Thank you.'')) @ ''.webm''"
    by (simp add: demo_server_def)
  have h4: "True = (\<not> storage_down (demo_server False ''Thank you.'')
                    \<and> Map.empty ''s1/audio-1700000000000.webm'' = None)"
    by (simp add: demo_server_def)
  have h5: "POST_transcribe (Some ''user_a'') (Some ''RIFF'') (Some ''s1'')
              (demo_server False ''Thank you.'') Map.empty
            = POST_transcribe (Some ''user_a'') (Some ''RIFF'') (Some ''s1'')
              (demo_server False ''Thank you.'') Map.empty" by (rule refl)
  from audio_stored_before_transcription [OF h1 h2 h3 h4 h5]
  show ?thesis using h1 by simp
qed

text \<open>
  C8 as the specification states it fails when the upload fails: the request still
  succeeds with the transcript, and nothing is stored for the chunk.
\<close>

theorem failed_upload_is_tolerated:
  "fst (POST_transcribe (Some ''user_a'') (Some ''RIFF'') (Some ''s1'')
      (demo_server True ''We met on Monday.'') Map.empty)
     = T_Ok \<lparr> b_text = ''We met on Monday.'', b_confidence = 95 / 100,
              b_timestamp = 1700000000500, b_duration = 3, b_words = [], b_skipped = None,
              b_originalText = None, b_savedAs = ''s1/audio-1700000000000.webm'',
              b_audioUrl = None \<rparr>
   \<and> fst (snd (POST_transcribe (Some ''user_a'') (Some ''RIFF'') (Some ''s1'')
      (demo_server True ''We met on Monday.'') Map.empty)) ''s1/audio-1700000000000.webm'' = None"
  by (simp add: Let_def demo_server_def POST_transcribe_def truthy_def demo_key
      storage_upload_def filter_result_def clean_sample)

text \<open>
  C3, as the code has it. The chunk index of a saved transcription is the clock in whole
  seconds, read when the hook handles the reply of the transcribe route. Indices
  therefore follow the order in which replies are handled, and two replies handled in
  the same second share an index: of two save requests, the one made no later has an
  index that is no greater.
\<close>

theorem chunk_index_follows_reply_time:
  assumes "save_request_for reply1 now1 = Some req1"
    and "save_request_for reply2 now2 = Some req2"
    and "now1 \<le> now2"
  shows "q_chunkIndex req1 = Some (now1 div 1000)
       \<and> q_chunkIndex req2 = Some (now2 div 1000)
       \<and> now1 div 1000 \<le> now2 div 1000"
proof -
  have idx: "q_chunkIndex req = Some (n div 1000)"
    if "save_request_for reply n = Some req" for reply n req
    using that
    by (auto simp: save_request_for_def chunkIndex_def split: transcribe_reply.splits if_splits)
  from assms(3) have "now1 div 1000 \<le> now2 div 1000" by (rule div_le_mono)
  with idx [OF assms(1)] idx [OF assms(2)] show ?thesis by simp
qed

lemma demo_save:
  "save_request_for (demo_reply ''We met on Monday.'') n =
     Some \<lparr> q_text = ''We met on Monday.'', q_confidence = Some (95 / 100),
            q_timestamp = Some 1700000000500, q_speaker = Some ''user'',
            q_duration = Some 3, q_chunkIndex = Some (n div 1000),
            q_audioUrl = Some ''s1/audio-1700000000000.webm'' \<rparr>"
  by (simp add: save_request_for_def demo_reply_def clean_sample_trim chunkIndex_def truthy_def)

theorem chunk_index_follows_reply_time_witness:
  "save_request_for (demo_reply ''We met on Monday.'') 4000 \<noteq> None
   \<and> save_request_for (demo_reply ''We met on Monday.'') 5000 \<noteq> None
   \<and> (4000 :: nat) \<le> 5000
   \<and> map_option q_chunkIndex (save_request_for (demo_reply ''We met on Monday.'') 4000)
        = Some (Some 4)
   \<and> map_option q_chunkIndex (save_request_for (demo_reply ''We met on Monday.'') 5000)
        = Some (Some 5)"
proof -
  have h3: "(4000 :: nat) \<le> 5000" by simp
  from chunk_index_follows_reply_time [OF demo_save [of 4000] demo_save [of 5000] h3]
  show ?thesis by (simp add: demo_save)
qed

text \<open>
  C3 as the specification states it fails. Of two chunks emitted one after the other,
  the reply for the first is handled at 5000 ms and the reply for the second at 4000 ms:
  the second chunk is recorded with the smaller index. Handled within the same second
  (4100 ms and 4900 ms), the two chunks are recorded with the same index.
\<close>

theorem second_chunk_index_not_greater:
  "map_option q_chunkIndex (save_request_for (demo_reply ''We met on Monday.'') 5000)
     = Some (Some 5)
   \<and> map_option q_chunkIndex (save_request_for (demo_reply ''and we met again.'') 4000)
     = Some (Some 4)
   \<and> map_option q_chunkIndex (save_request_for (demo_reply ''We met on Monday.'') 4100)
     = Some (Some 4)
   \<and> map_option q_chunkIndex (save_request_for (demo_reply ''and we met again.'') 4900)
     = Some (Some 4)"
proof -
  have t: "trim ''and we met again.'' \<noteq> []" by code_simp
  show ?thesis
    by (simp add: save_request_for_def demo_reply_def clean_sample_trim t chunkIndex_def)
qed

section \<open>Properties of the transcriptions route\<close>

lemma session_transcriptions_sorted:
  "sorted (map t_timestamp (session_transcriptions db sessionId))"
  by (simp add: session_transcriptions_def)

lemma session_transcriptions_mset:
  "mset (session_transcriptions db sessionId)
     = filter_mset (\<lambda>t. t_session_id t = sessionId) (mset (transcriptions db))"
  by (simp add: session_transcriptions_def)

lemma session_transcriptions_empty:
  "session_transcriptions db sessionId = []
     \<longleftrightarrow> filter (\<lambda>t. t_session_id t = sessionId) (transcriptions db) = []"
proof -
  have "length (session_transcriptions db sessionId)
          = length (filter (\<lambda>t. t_session_id t = sessionId) (transcriptions db))"
    by (simp add: session_transcriptions_def)
  then show ?thesis by (metis length_0_conv)
qed

lemma no_faults_none: "\<not> no_faults tab"
  by (simp add: no_faults_def)

lemma GET_transcriptions_cases:
  assumes "uid \<noteq> []" and "\<not> faulty Transcriptions"
  shows "GET_transcriptions (Some uid) sessionId faulty db =
           (if session_transcriptions db sessionId = [] then L_List []
            else if owned_session db faulty sessionId uid = None then L_NotFound
            else L_List (session_transcriptions db sessionId))"
  using assms by (auto simp: GET_transcriptions_def Let_def split: option.splits)

text \<open>
  C2, as the code has it. The rows of a session are listed, and the transcript for a
  summary is assembled, in ascending order of timestamp alone: the list is sorted by
  timestamp, it holds exactly the rows of the session, a successful listing returns it,
  and summary generation from the route is generation from the non-empty texts of this
  list joined by spaces.
\<close>

theorem transcripts_ordered_by_timestamp:
  "sorted (map t_timestamp (session_transcriptions db sessionId))
   \<and> mset (session_transcriptions db sessionId)
       = filter_mset (\<lambda>t. t_session_id t = sessionId) (mset (transcriptions db))
   \<and> (GET_transcriptions userId sessionId faulty_tabs db = L_List rows
        \<longrightarrow> rows = session_transcriptions db sessionId)
   \<and> (\<not> e_faulty env Transcriptions
        \<and> fullTranscript_of (session_transcriptions db sessionId) \<noteq> []
        \<longrightarrow> snd (generate_for_request env db sessionId uid)
            = snd (generateSessionSummaryFromTranscript env db sessionId uid
                     (join '' '' (filter (\<lambda>t. t \<noteq> [])
                                    (map t_text (session_transcriptions db sessionId))))
                     (length (session_transcriptions db sessionId))))"
proof -
  have listing: "rows = session_transcriptions db sessionId"
    if "GET_transcriptions userId sessionId faulty_tabs db = L_List rows"
    using that
    by (auto simp: GET_transcriptions_def Let_def split: option.splits if_splits)
  have summary: "snd (generate_for_request env db sessionId uid)
            = snd (generateSessionSummaryFromTranscript env db sessionId uid
                     (join '' '' (filter (\<lambda>t. t \<noteq> [])
                                    (map t_text (session_transcriptions db sessionId))))
                     (length (session_transcriptions db sessionId)))"
    if "\<not> e_faulty env Transcriptions"
      and "fullTranscript_of (session_transcriptions db sessionId) \<noteq> []"
    using that
    by (auto simp: generate_for_request_def Let_def fullTranscript_of_def
        split: prod.splits sum.splits)
  show ?thesis
    using session_transcriptions_sorted session_transcriptions_mset listing summary
    by blast
qed

lemma skewed_rows:
  "session_transcriptions skewed_db ''s1''
     = [demo_row ''s1'' ''first'' 1000 8, demo_row ''s1'' ''second'' 2000 7]"
  by (simp add: session_transcriptions_def skewed_db_def demo_row_def)

lemma skewed_listing:
  "GET_transcriptions (Some ''user_a'') ''s1'' no_faults skewed_db
     = L_List [demo_row ''s1'' ''first'' 1000 8, demo_row ''s1'' ''second'' 2000 7]"
proof -
  have "owned_session skewed_db no_faults ''s1'' ''user_a'' = Some demo_session"
    by (simp add: owned_session_def no_faults_none skewed_db_def demo_session_def single_def)
  then show ?thesis
    by (simp add: GET_transcriptions_cases no_faults_none skewed_rows)
qed

lemma skewed_transcript:
  "fullTranscript_of (session_transcriptions skewed_db ''s1'') = ''first second''"
  by (simp add: skewed_rows fullTranscript_of_def demo_row_def)

theorem transcripts_ordered_by_timestamp_witness:
  "GET_transcriptions (Some ''user_a'') ''s1'' no_faults skewed_db
     = L_List [demo_row ''s1'' ''first'' 1000 8, demo_row ''s1'' ''second'' 2000 7]
   \<and> \<not> e_faulty echo_env Transcriptions
   \<and> fullTranscript_of (session_transcriptions skewed_db ''s1'') \<noteq> []
   \<and> sorted (map t_timestamp (session_transcriptions skewed_db ''s1''))
   \<and> [demo_row ''s1'' ''first'' 1000 8, demo_row ''s1'' ''second'' 2000 7]
       = session_transcriptions skewed_db ''s1''"
proof -
  have h1: "\<not> e_faulty echo_env Transcriptions" by (simp add: echo_env_def no_faults_none)
  have h2: "fullTranscript_of (session_transcriptions skewed_db ''s1'') \<noteq> []"
    by (simp add: skewed_transcript)
  from transcripts_ordered_by_timestamp [of skewed_db "''s1''" "Some ''user_a''" no_faults
      "[demo_row ''s1'' ''first'' 1000 8, demo_row ''s1'' ''second'' 2000 7]" echo_env "''user_a''"]
  show ?thesis using skewed_listing h1 h2 by blast
qed

text \<open>
  C2 as the specification states it fails. Of two rows the one with the earlier timestamp
  has the greater chunk index: the listing returns it first, and the summary is
  generated from the transcript that begins with its text.
\<close>

theorem listing_ignores_chunk_index:
  "GET_transcriptions (Some ''user_a'') ''s1'' no_faults skewed_db
     = L_List [demo_row ''s1'' ''first'' 1000 8, demo_row ''s1'' ''second'' 2000 7]
   \<and> map t_chunk_index [demo_row ''s1'' ''first'' 1000 8, demo_row ''s1'' ''second'' 2000 7]
       = [Some 8, Some 7]
   \<and> (case fst (POST_summary (Some ''user_a'') ''s1''
                  \<lparr> includeMetadata = True, forceRegenerate = False \<rparr> echo_env skewed_db) of
         S_Generated row \<Rightarrow> overall_summary (m_summary row) = ''first second''
       | _ \<Rightarrow> False)"
proof -
  have own: "owned_session skewed_db no_faults ''s1'' ''user_a'' = Some demo_session"
    by (simp add: owned_session_def no_faults_none skewed_db_def demo_session_def single_def)
  have nosum: "session_summaries skewed_db = []" by (simp add: skewed_db_def)
  have "case fst (POST_summary (Some ''user_a'') ''s1''
                  \<lparr> includeMetadata = True, forceRegenerate = False \<rparr> echo_env skewed_db) of
         S_Generated row \<Rightarrow> overall_summary (m_summary row) = ''first second''
       | _ \<Rightarrow> False"
    by (simp add: POST_summary_def getSessionSummary_def echo_env_def own nosum single_def
        no_faults_none generate_for_request_def Let_def skewed_rows
        skewed_transcript [unfolded skewed_rows]
        generateSessionSummaryFromTranscript_def callOpenAIWithTranscript_def truthy_def
        parse_ai_response_def saveSummary_def demo_session_def)
  then show ?thesis by (simp add: skewed_listing demo_row_def)
qed

text \<open>
  C4, as the code has it. The listing reads the rows first. When the session named in
  the request does not exist or belongs to another user, the reply is NotFound if the
  session id has at least one transcription row, the same reply in both cases; if it
  has none, the reply is a success with the empty list.
\<close>

theorem listing_of_foreign_session:
  assumes "uid \<noteq> []" and "\<not> faulty_tabs Transcriptions"
    and "\<not> (\<exists>s \<in> set (sessions db). s_id s = sessionId \<and> s_clerk_user_id s = uid)"
  shows "GET_transcriptions (Some uid) sessionId faulty_tabs db =
           (if filter (\<lambda>t. t_session_id t = sessionId) (transcriptions db) = []
            then L_List [] else L_NotFound)"
proof -
  from assms(3)
  have "filter (\<lambda>s. s_id s = sessionId \<and> s_clerk_user_id s = uid) (sessions db) = []"
    by (auto simp: filter_empty_conv)
  then have "owned_session db faulty_tabs sessionId uid = None"
    by (simp add: owned_session_def single_def)
  then show ?thesis
    using GET_transcriptions_cases [where uid = uid and faulty = faulty_tabs
        and sessionId = sessionId and db = db] assms(1) assms(2)
    by (simp add: session_transcriptions_empty)
qed

theorem listing_of_foreign_session_witness:
  "''user_a'' \<noteq> [] \<and> \<not> no_faults Transcriptions
   \<and> \<not> (\<exists>s \<in> set (sessions shared_db). s_id s = ''s2'' \<and> s_clerk_user_id s = ''user_a'')
   \<and> GET_transcriptions (Some ''user_a'') ''s2'' no_faults shared_db = L_NotFound"
proof -
  have h1: "''user_a'' \<noteq> []" by simp
  have h2: "\<not> no_faults Transcriptions" by (simp add: no_faults_def)
  have h3: "\<not> (\<exists>s \<in> set (sessions shared_db). s_id s = ''s2'' \<and> s_clerk_user_id s = ''user_a'')"
    by (simp add: shared_db_def demo_session_def)
  from listing_of_foreign_session [where uid = "''user_a''" and faulty_tabs = no_faults
      and db = shared_db and sessionId = "''s2''", OF h1 h2 h3]
  show ?thesis using h1 h2 h3 by (simp add: shared_db_def demo_row_def)
qed

text \<open>
  C4 as the specification states it fails. A session id that does not exist is listed
  with success (the empty list), and so the caller can tell it from the session of
  another user that has a transcription, which is answered with NotFound.
\<close>

theorem absent_session_lists_empty:
  "\<not> (\<exists>s \<in> set (sessions shared_db). s_id s = ''s9'')
   \<and> GET_transcriptions (Some ''user_a'') ''s9'' no_faults shared_db = L_List []
   \<and> GET_transcriptions (Some ''user_a'') ''s2'' no_faults shared_db = L_NotFound"
  by (simp add: GET_transcriptions_def Let_def no_faults_def shared_db_def demo_session_def
      demo_row_def session_transcriptions_def owned_session_def single_def)

section \<open>What the two extractions return\<close>

lemma find_after_Some: "find_after s p = Some r \<Longrightarrow> \<exists>a. s = a @ p @ r"
proof (induction s)
  case Nil
  then show ?case by (simp split: if_splits)
next
  case (Cons c cs)
  show ?case
  proof (cases "startsWith (c # cs) p")
    case True
    then obtain b where b: "c # cs = p @ b" by (auto simp: startsWith_iff)
    from True Cons.prems have "r = drop (length p) (c # cs)" by simp
    with b have "r = b" by simp
    with b have "c # cs = [] @ p @ r" by simp
    then show ?thesis by blast
  next
    case False
    with Cons.prems have "find_after cs p = Some r" by simp
    then obtain a where "cs = a @ p @ r" using Cons.IH by blast
    then have "c # cs = (c # a) @ p @ r" by simp
    then show ?thesis by blast
  qed
qed

lemma find_before_Some: "find_before s p = Some b \<Longrightarrow> \<exists>r. s = b @ p @ r"
proof (induction s arbitrary: b)
  case Nil
  then show ?case by (simp split: if_splits)
next
  case (Cons c cs)
  show ?case
  proof (cases "startsWith (c # cs) p")
    case True
    with Cons.prems have "b = []" by simp
    with True show ?thesis by (auto simp: startsWith_iff)
  next
    case False
    with Cons.prems obtain b' where b': "find_before cs p = Some b'" "b = c # b'" by auto
    from Cons.IH [OF b'(1)] obtain r where "cs = b' @ p @ r" by blast
    with b'(2) have "c # cs = b @ p @ r" by simp
    then show ?thesis by blast
  qed
qed

lemma trimEnd_white: "\<exists>w. s = trimEnd s @ w \<and> list_all isWhiteSpace w"
proof -
  have "rev (takeWhile isWhiteSpace (rev s) @ dropWhile isWhiteSpace (rev s)) = s" by simp
  then have "rev (dropWhile isWhiteSpace (rev s)) @ rev (takeWhile isWhiteSpace (rev s)) = s"
    by (simp only: rev_append)
  then have eq: "s = trimEnd s @ rev (takeWhile isWhiteSpace (rev s))"
    by (simp only: trimEnd_def)
  have "list_all isWhiteSpace (rev (takeWhile isWhiteSpace (rev s)))"
    by (auto simp: list_all_iff dest: set_takeWhileD)
  with eq show ?thesis by blast
qed

text \<open>
  A match of the fence pattern captures text that stands in the response between an
  opening fence with its \<open>json\<close> tag and a closing fence, set off by white space only.
\<close>

lemma fenced_json_Some:
  assumes "fenced_json s = Some c"
  shows "\<exists>a w1 w2 r. s = a @ fence @ ''json'' @ w1 @ c @ w2 @ fence @ r
           \<and> list_all isWhiteSpace w1 \<and> list_all isWhiteSpace w2"
proof -
  from assms obtain rest body where
    rest: "find_after s (fence @ ''json'') = Some rest"
    and body: "find_before (dropWhile isWhiteSpace rest) fence = Some body"
    and c: "c = trimEnd body"
    by (auto simp: fenced_json_def split: option.splits)
  from find_after_Some [OF rest] obtain a where a: "s = a @ (fence @ ''json'') @ rest" by blast
  from find_before_Some [OF body] obtain r where
    r: "dropWhile isWhiteSpace rest = body @ fence @ r" by blast
  have w1: "rest = takeWhile isWhiteSpace rest @ dropWhile isWhiteSpace rest" by simp
  have w1_white: "list_all isWhiteSpace (takeWhile isWhiteSpace rest)"
    by (auto simp: list_all_iff dest: set_takeWhileD)
  from trimEnd_white [of body] c obtain w2 where
    w2: "body = c @ w2" "list_all isWhiteSpace w2" by blast
  from w1 r w2(1) have "rest = takeWhile isWhiteSpace rest @ c @ w2 @ fence @ r" by simp
  with a have "s = a @ fence @ ''json'' @ takeWhile isWhiteSpace rest @ c @ w2 @ fence @ r"
    by simp
  with w1_white w2(2) show ?thesis by blast
qed

lemma indexOf_Some:
  "indexOf s c = Some i \<Longrightarrow> i < length s \<and> s ! i = c \<and> c \<notin> set (take i s)"
proof (induction s arbitrary: i)
  case Nil
  then show ?case by simp
next
  case (Cons x xs)
  show ?case
  proof (cases "x = c")
    case True
    with Cons.prems show ?thesis by simp
  next
    case False
    with Cons.prems obtain j where j: "indexOf xs c = Some j" "i = Suc j" by auto
    from Cons.IH [OF j(1)] j(2) False show ?thesis by simp
  qed
qed

lemma lastIndexOf_Some:
  assumes "lastIndexOf s c = Some j"
  shows "j < length s \<and> s ! j = c \<and> c \<notin> set (drop (Suc j) s)"
proof -
  from assms obtain k where k: "indexOf (rev s) c = Some k" "j = length s - 1 - k"
    by (auto simp: lastIndexOf_def)
  from indexOf_Some [OF k(1)] have
    kl: "k < length s" and at: "rev s ! k = c" and before: "c \<notin> set (take k (rev s))"
    by simp_all
  from kl k(2) have j: "j < length s" "j = length s - Suc k" by simp_all
  from kl at j(2) have "s ! j = c" by (simp add: rev_nth)
  moreover have "drop (Suc j) s = rev (take k (rev s))"
  proof -
    from kl j(2) have "Suc j = length s - k" by simp
    then show ?thesis by (simp add: take_rev)
  qed
  with before have "c \<notin> set (drop (Suc j) s)" by simp
  ultimately show ?thesis using j(1) by simp
qed

text \<open>
  The brace extraction returns the part of the response that begins with its first
  opening brace and ends with its last closing brace.
\<close>

lemma brace_content_Some:
  assumes "brace_content s = Some c"
  shows "\<exists>a b. s = a @ c @ b \<and> CHR ''{'' \<notin> set a \<and> CHR ''}'' \<notin> set b
           \<and> c \<noteq> [] \<and> hd c = CHR ''{'' \<and> last c = CHR ''}''"
proof -
  from assms obtain i j where
    i: "indexOf s (CHR ''{'') = Some i" and j: "lastIndexOf s (CHR ''}'') = Some j"
    and ij: "i < j" and c: "c = slice s i (j + 1)"
    by (auto simp: brace_content_def split: option.splits if_splits)
  from indexOf_Some [OF i] have
    il: "i < length s" and iat: "s ! i = CHR ''{''" and ibefore: "CHR ''{'' \<notin> set (take i s)"
    by simp_all
  from lastIndexOf_Some [OF j] have
    jl: "j < length s" and jat: "s ! j = CHR ''}''" and jafter: "CHR ''}'' \<notin> set (drop (Suc j) s)"
    by simp_all
  have c': "c = take (Suc j - i) (drop i s)" using c by (simp add: slice_def)
  have len: "length c = Suc j - i" using c' jl ij by simp
  have ne: "c \<noteq> []" using len ij by auto
  have split: "s = take i s @ c @ drop (Suc j) s"
  proof -
    have "drop i s = take (Suc j - i) (drop i s) @ drop (Suc j - i) (drop i s)"
      by (rule append_take_drop_id [symmetric])
    moreover have "drop (Suc j - i) (drop i s) = drop (Suc j) s" using ij by simp
    ultimately have "drop i s = c @ drop (Suc j) s" using c' by simp
    moreover have "s = take i s @ drop i s" by simp
    ultimately show ?thesis by simp
  qed
  have "hd c = c ! 0" using ne by (simp add: hd_conv_nth)
  also have "\<dots> = s ! i" using c' ij il by simp
  finally have hd: "hd c = CHR ''{''" using iat by simp
  have "last c = c ! (length c - 1)" using ne by (simp add: last_conv_nth)
  also have "\<dots> = c ! (j - i)" using len ij by simp
  also have "\<dots> = s ! j" using c' ij jl by simp
  finally have last: "last c = CHR ''}''" using jat by simp
  from split ibefore jafter ne hd last show ?thesis by blast
qed

section \<open>Properties of summary generation\<close>


lemma generate_parse_failure:
  assumes "owned_session db (e_faulty env) sessionId uid = Some session"
    and "single (filter (\<lambda>m. m_session_id m = sessionId) (session_summaries db)) = None"
    and "openai env (s_scenario_type session) transcript = CompletionContent (Some aiResponse)"
    and "aiResponse \<noteq> []"
    and "parse_ai_response (JSON_parse env) aiResponse = Inl e"
  shows "generateSessionSummaryFromTranscript env db sessionId uid transcript n
           = (Inl e, db, [TextCompletion])"
  using assms
  by (simp add: generateSessionSummaryFromTranscript_def callOpenAIWithTranscript_def truthy_def)

lemma parse_error_is_format: "parse_ai_response P r = Inl e \<Longrightarrow> e = InvalidFormat"
  by (auto simp: parse_ai_response_def split: option.splits if_splits)

text \<open>
  C9, as the code has it. The response is parsed as it is first. If that fails, exactly
  one further candidate is tried: the fenced block when the pattern matches with a
  non-empty capture, and the text from the first opening brace to the last closing brace
  only when it does not. The error is raised when the response does not parse and that
  one candidate is missing or does not parse. When it is raised during summary
  generation, the generation ends with this error after the one completion call and
  the database is as before.
\<close>

theorem summary_parse_order:
  assumes "owned_session db (e_faulty env) sessionId uid = Some session"
    and "single (filter (\<lambda>m. m_session_id m = sessionId) (session_summaries db)) = None"
    and "openai env (s_scenario_type session) transcript = CompletionContent (Some aiResponse)"
    and "aiResponse \<noteq> []"
  shows "parse_ai_response (JSON_parse env) aiResponse =
           (case JSON_parse env aiResponse of
              Some parsed \<Rightarrow> Inr parsed
            | None \<Rightarrow>
                (case (if truthy (fenced_json aiResponse) then fenced_json aiResponse
                       else brace_content aiResponse) of
                   None \<Rightarrow> Inl InvalidFormat
                 | Some candidate \<Rightarrow>
                     (case JSON_parse env candidate of
                        Some parsed \<Rightarrow> Inr parsed
                      | None \<Rightarrow> Inl InvalidFormat)))
       \<and> (parse_ai_response (JSON_parse env) aiResponse = Inl InvalidFormat \<longrightarrow>
            generateSessionSummaryFromTranscript env db sessionId uid transcript n
              = (Inl InvalidFormat, db, [TextCompletion]))"
proof -
  have order: "parse_ai_response P aiResponse =
           (case P aiResponse of
              Some parsed \<Rightarrow> Inr parsed
            | None \<Rightarrow>
                (case (if truthy (fenced_json aiResponse) then fenced_json aiResponse
                       else brace_content aiResponse) of
                   None \<Rightarrow> Inl InvalidFormat
                 | Some candidate \<Rightarrow>
                     (case P candidate of
                        Some parsed \<Rightarrow> Inr parsed
                      | None \<Rightarrow> Inl InvalidFormat)))" for P :: "string \<Rightarrow> parsed_json option"
    by (auto simp: parse_ai_response_def truthy_def split: option.splits)
  show ?thesis
    using order [of "JSON_parse env"] generate_parse_failure [OF assms, of InvalidFormat n]
    by simp
qed

lemma deaf_parse: "parse_ai_response (\<lambda>s. None) ''I cannot summarise this.'' = Inl InvalidFormat"
proof -
  have "fenced_json ''I cannot summarise this.'' = None" by code_simp
  then show ?thesis by (simp add: parse_ai_response_def truthy_def split: option.splits)
qed

theorem summary_parse_order_witness:
  "owned_session demo_db (e_faulty deaf_env) ''s1'' ''user_a'' = Some demo_session
   \<and> single (filter (\<lambda>m. m_session_id m = ''s1'') (session_summaries demo_db)) = None
   \<and> openai deaf_env (s_scenario_type demo_session) ''Hello.''
        = CompletionContent (Some ''I cannot summarise this.'')
   \<and> ''I cannot summarise this.'' \<noteq> []
   \<and> parse_ai_response (JSON_parse deaf_env) ''I cannot summarise this.'' = Inl InvalidFormat
   \<and> generateSessionSummaryFromTranscript deaf_env demo_db ''s1'' ''user_a'' ''Hello.'' 1
        = (Inl InvalidFormat, demo_db, [TextCompletion])"
proof -
  have h1: "owned_session demo_db (e_faulty deaf_env) ''s1'' ''user_a'' = Some demo_session"
    by (simp add: owned_session_def deaf_env_def no_faults_none demo_db_def demo_session_def
        single_def)
  have h2: "single (filter (\<lambda>m. m_session_id m = ''s1'') (session_summaries demo_db)) = None"
    by (simp add: demo_db_def single_def)
  have h3: "openai deaf_env (s_scenario_type demo_session) ''Hello.''
              = CompletionContent (Some ''I cannot summarise this.'')"
    by (simp add: deaf_env_def)
  have h4: "''I cannot summarise this.'' \<noteq> []" by simp
  have h5: "parse_ai_response (JSON_parse deaf_env) ''I cannot summarise this.'' = Inl InvalidFormat"
    using deaf_parse by (simp add: deaf_env_def)
  from summary_parse_order [OF h1 h2 h3 h4, of 1]
  show ?thesis using h1 h2 h3 h5 by simp
qed

text \<open>
  C9 as the specification states it fails. The response below does not parse as it is,
  its fenced block does not parse either, and the error is raised although the text
  between its first opening and last closing brace parses.
\<close>

theorem fenced_block_failure_skips_braces:
  "braces_only fenced_reply = None
   \<and> fenced_json fenced_reply = Some ''oops''
   \<and> braces_only ''oops'' = None
   \<and> brace_content fenced_reply = Some ''{}''
   \<and> braces_only ''{}'' = Some ''{}''
   \<and> parse_ai_response braces_only fenced_reply = Inl InvalidFormat"
  by code_simp

lemma join_nonempty:
  assumes "ys \<noteq> []" and "\<forall>y \<in> set ys. y \<noteq> []"
  shows "join sep ys \<noteq> []"
proof (cases ys)
  case Nil
  with assms(1) show ?thesis by simp
next
  case (Cons y zs)
  with assms(2) have "y \<noteq> []" by simp
  with Cons show ?thesis by (cases zs) simp_all
qed

lemma fullTranscript_nonempty_iff:
  "fullTranscript_of rows \<noteq> [] \<longleftrightarrow> (\<exists>t \<in> set rows. t_text t \<noteq> [])"
proof
  assume "fullTranscript_of rows \<noteq> []"
  then have "filter (\<lambda>t. t \<noteq> []) (map t_text rows) \<noteq> []"
    by (auto simp: fullTranscript_of_def)
  then show "\<exists>t \<in> set rows. t_text t \<noteq> []"
    by (auto simp: filter_empty_conv)
next
  assume "\<exists>t \<in> set rows. t_text t \<noteq> []"
  then have "filter (\<lambda>t. t \<noteq> []) (map t_text rows) \<noteq> []"
    by (auto simp: filter_empty_conv)
  moreover have "\<forall>y \<in> set (filter (\<lambda>t. t \<noteq> []) (map t_text rows)). y \<noteq> []" by simp
  ultimately show "fullTranscript_of rows \<noteq> []"
    unfolding fullTranscript_of_def by (rule join_nonempty)
qed

lemma set_session_transcriptions:
  "set (session_transcriptions db sessionId)
     = {t \<in> set (transcriptions db). t_session_id t = sessionId}"
  by (auto simp: session_transcriptions_def)

lemma backed_iff:
  "summaries_backed db \<longleftrightarrow>
     (\<forall>m \<in> set (session_summaries db).
        \<exists>t \<in> set (transcriptions db). t_session_id t = m_session_id m \<and> t_text t \<noteq> [])"
  by (auto simp: summaries_backed_def list_all_iff fullTranscript_nonempty_iff
      set_session_transcriptions)

text \<open>Both routes that write to the two tables keep every stored summary backed.\<close>

lemma POST_transcriptions_keeps_backing:
  assumes "summaries_backed db"
  shows "summaries_backed (snd (POST_transcriptions userId sessionId req clk faulty_tabs db))"
proof -
  let ?db = "snd (POST_transcriptions userId sessionId req clk faulty_tabs db)"
  have "session_summaries ?db = session_summaries db"
    and "set (transcriptions db) \<subseteq> set (transcriptions ?db)"
    by (auto simp: POST_transcriptions_def Let_def split: option.splits)
  with assms show ?thesis unfolding backed_iff by fastforce
qed

lemma generate_keeps_backing:
  assumes "summaries_backed db"
    and "fullTranscript_of (session_transcriptions db sessionId) \<noteq> []"
  shows "summaries_backed
           (fst (snd (generateSessionSummaryFromTranscript env db sessionId uid transcript n)))"
proof -
  let ?db = "fst (snd (generateSessionSummaryFromTranscript env db sessionId uid transcript n))"
  have tr: "transcriptions ?db = transcriptions db"
    by (auto simp: generateSessionSummaryFromTranscript_def saveSummary_def Let_def
        split: option.splits sum.splits prod.splits if_splits)
  have sm: "set (session_summaries ?db) \<subseteq> set (session_summaries db) \<union> {m. m_session_id m = sessionId}"
    by (auto simp: generateSessionSummaryFromTranscript_def saveSummary_def Let_def
        split: option.splits sum.splits prod.splits if_splits)
  from assms(2) have here:
    "\<exists>t \<in> set (transcriptions db). t_session_id t = sessionId \<and> t_text t \<noteq> []"
    by (auto simp: fullTranscript_nonempty_iff set_session_transcriptions)
  show ?thesis
    unfolding backed_iff
  proof
    fix m assume "m \<in> set (session_summaries ?db)"
    with sm consider "m \<in> set (session_summaries db)" | "m_session_id m = sessionId" by blast
    then show "\<exists>t \<in> set (transcriptions ?db). t_session_id t = m_session_id m \<and> t_text t \<noteq> []"
    proof cases
      case 1
      with assms(1) tr show ?thesis unfolding backed_iff by simp
    next
      case 2
      with here tr show ?thesis by simp
    qed
  qed
qed

lemma POST_summary_keeps_backing:
  assumes "summaries_backed db"
  shows "summaries_backed (fst (snd (POST_summary userId sessionId body env db)))"
proof -
  have gen: "summaries_backed (fst (snd (generate_for_request env db sessionId uid)))" for uid
  proof (cases "e_faulty env Transcriptions
                \<or> fullTranscript_of (session_transcriptions db sessionId) = []")
    case True
    with assms show ?thesis by (auto simp: generate_for_request_def Let_def)
  next
    case False
    then have ne: "fullTranscript_of (session_transcriptions db sessionId) \<noteq> []" by simp
    have "fst (snd (generate_for_request env db sessionId uid))
            = fst (snd (generateSessionSummaryFromTranscript env db sessionId uid
                          (fullTranscript_of (session_transcriptions db sessionId))
                          (length (session_transcriptions db sessionId))))"
      using False by (auto simp: generate_for_request_def Let_def split: prod.splits sum.splits)
    with generate_keeps_backing [OF assms ne] show ?thesis by simp
  qed
  show ?thesis
    using assms gen
    by (auto simp: POST_summary_def split: option.splits sum.splits)
qed










end
